theory Spec2Isabelle
  imports Complex_Main "HOL-Library.AList"
begin

section \<open>Data model of app.py\<close>

text \<open>
  A comment is the JSON object the GUI submits: a Python dict from keys to values. The
  payload values the server reads (url, ai_comment, title, subreddit, id) are JSON
  strings, so a comment is an association list from strings to strings. Reading a key
  with a default is \<open>dict.get\<close>, writing one is \<open>d[k] = v\<close> (an existing key keeps
  its position, a new key goes last, which is what \<open>AList.update\<close> does).
\<close>

type_synonym pydict = "(string \<times> string) list"

type_synonym comment = pydict

definition dict_get :: "pydict \<Rightarrow> string \<Rightarrow> string \<Rightarrow> string" where
  "dict_get d k dflt = (case map_of d k of None \<Rightarrow> dflt | Some v \<Rightarrow> v)"

definition dict_set :: "pydict \<Rightarrow> string \<Rightarrow> string \<Rightarrow> pydict" where
  "dict_set d k v = AList.update k v d"

text \<open>The result dict appended to \<open>posting_history\<close> (lines 215-221 and 408-414).\<close>

record result =
  res_id :: string
  res_subreddit :: string
  res_title :: string
  res_success :: bool
  res_posted_at :: string

text \<open>
  What \<open>http_requests.post\<close> is called with (lines 134-139): the endpoint, the Referer
  header (the only header that varies), the cookies and the form data, whose varying
  parts are the comment text inside the rich-text document and the CSRF token.
\<close>

record http_request =
  req_url :: string
  req_referer :: string
  req_cookies :: pydict
  req_csrf_token :: string
  req_text :: string
  req_format_range :: "nat \<times> nat \<times> nat"

datatype http_outcome = Status nat | Raised

text \<open>
  \<open>random.random()\<close> returns a float in the half-open interval from 0 to 1; a draw is
  a real of that interval.
\<close>

typedef unit_draw = "{r :: real. 0 \<le> r \<and> r < 1}"
  by (rule exI [of _ 0]) simp

text \<open>The exceptions the model follows: \<open>time.sleep\<close> refuses a negative length.\<close>

datatype py_error = ValueError

text \<open>
  The outside world the module calls into: \<open>uuid.uuid4\<close>, \<open>random.random\<close>,
  \<open>datetime.now\<close> and the HTTP endpoint. Each is a function of the number of calls made
  so far, so that a run of the model is a function of the environment.
\<close>

record env =
  uuid4_str :: "nat \<Rightarrow> string"
  random_random :: "nat \<Rightarrow> unit_draw"
  utc_now_iso :: "nat \<Rightarrow> string"
  http_post :: "nat \<Rightarrow> http_request \<Rightarrow> http_outcome"

datatype thread_status = Created | Running | Finished

text \<open>
  What a run does to the outside world, in the order it does it: a \<open>time.sleep\<close>, a
  call of the executor \<open>post_comment_to_reddit\<close>, a request sent to the endpoint.
\<close>

datatype event = Slept real | ExecutorCalled comment | HttpPosted http_request

text \<open>
  The module's globals (lines 36-63), followed by the counters of the draws from the
  outside world and the trace of events so far. \<open>threads\<close> holds every
  \<open>threading.Thread\<close> object created so far, \<open>worker_thread\<close> is the index of the
  one the global refers to. \<open>session_data\<close> is a dict with the two keys cookies and
  csrf_token, absent until the first submission; \<open>wait_range\<close> is the pair of fields
  \<open>min_wait\<close> and \<open>max_wait\<close>.
\<close>

record server_state =
  comment_queue :: "comment list"
  threads :: "thread_status list"
  worker_thread :: "nat option"
  worker_running :: bool
  posting_history :: "result list"
  total_received :: int
  total_success :: int
  total_fail :: int
  currently_posting :: "comment option"
  session_cookies :: "pydict option"
  session_csrf_token :: "string option"
  min_wait :: real
  max_wait :: real
  uuid_draws :: nat
  random_draws :: nat
  clock_reads :: nat
  trace :: "event list"

definition MAX_HISTORY :: nat where
  "MAX_HISTORY = 500"

definition initial_state :: server_state where
  "initial_state =
     \<lparr>comment_queue = [], threads = [], worker_thread = None, worker_running = False,
      posting_history = [], total_received = 0, total_success = 0, total_fail = 0,
      currently_posting = None, session_cookies = None, session_csrf_token = None,
      min_wait = 4, max_wait = 6, uuid_draws = 0, random_draws = 0, clock_reads = 0,
      trace = []\<rparr>"

fun sleeps_of :: "event list \<Rightarrow> real list" where
  "sleeps_of [] = []"
| "sleeps_of (Slept d # evs) = d # sleeps_of evs"
| "sleeps_of (ev # evs) = sleeps_of evs"

fun executor_calls_of :: "event list \<Rightarrow> comment list" where
  "executor_calls_of [] = []"
| "executor_calls_of (ExecutorCalled c # evs) = c # executor_calls_of evs"
| "executor_calls_of (ev # evs) = executor_calls_of evs"

fun http_requests_of :: "event list \<Rightarrow> http_request list" where
  "http_requests_of [] = []"
| "http_requests_of (HttpPosted rq # evs) = rq # http_requests_of evs"
| "http_requests_of (ev # evs) = http_requests_of evs"

text \<open>
  \<open>time.sleep(d)\<close> raises ValueError when \<open>d\<close> is negative and otherwise returns
  after \<open>d\<close> seconds; \<open>slept d\<close> is the state once it has returned. Where the source
  sleeps for the constants 1 and 2, or for \<open>random.uniform(2, 4)\<close>, which is at least 2,
  the call cannot raise and the model writes \<open>slept\<close>.
\<close>

definition slept :: "real \<Rightarrow> server_state \<Rightarrow> server_state" where
  "slept d s = s\<lparr>trace := trace s @ [Slept d]\<rparr>"

definition sleep :: "real \<Rightarrow> server_state \<Rightarrow> py_error + server_state" where
  "sleep d s = (if d < 0 then Inl ValueError else Inr (slept d s))"

text \<open>\<open>random.uniform(a, b)\<close> is \<open>a + (b - a) * random()\<close>, over the reals here.\<close>

definition uniform :: "real \<Rightarrow> real \<Rightarrow> real \<Rightarrow> real" where
  "uniform a b r = a + (b - a) * r"

definition random_uniform :: "env \<Rightarrow> real \<Rightarrow> real \<Rightarrow> server_state \<Rightarrow> real \<times> server_state" where
  "random_uniform e a b s =
     (uniform a b (Rep_unit_draw (random_random e (random_draws s))),
      s\<lparr>random_draws := random_draws s + 1\<rparr>)"

section \<open>The executor: post_comment_to_reddit\<close>

definition rstrip_slash :: "string \<Rightarrow> string" where
  "rstrip_slash u = rev (dropWhile (\<lambda>c. c = CHR ''/'') (rev u))"

text \<open>\<open>str.split("/")\<close>: every slash separates, so empty pieces are kept.\<close>

fun split_slash :: "string \<Rightarrow> string list" where
  "split_slash [] = [[]]"
| "split_slash (c # cs) =
     (if c = CHR ''/'' then [] # split_slash cs
      else (case split_slash cs of [] \<Rightarrow> [[c]] | p # ps \<Rightarrow> (c # p) # ps))"

text \<open>
  The loop of lines 82-86: the piece after the first piece \<open>comments\<close> that has a
  successor.
\<close>

fun after_comments :: "string list \<Rightarrow> string option" where
  "after_comments (p # q # rest) =
     (if p = ''comments'' then Some q else after_comments (q # rest))"
| "after_comments _ = None"

definition extract_post_id :: "string \<Rightarrow> string option" where
  "extract_post_id post_url =
     (let parts = split_slash (rstrip_slash post_url);
          post_id = after_comments parts;
          post_id = (if post_id = None \<or> post_id = Some []
                     then (if length parts \<ge> 3 then Some (parts ! (length parts - 3)) else None)
                     else post_id)
      in if post_id = None \<or> post_id = Some [] then None else post_id)"

definition build_request :: "string \<Rightarrow> string \<Rightarrow> string \<Rightarrow> pydict \<Rightarrow> string \<Rightarrow> http_request" where
  "build_request post_id post_url ai_comment cookies csrf_token =
     \<lparr>req_url = ''https://www.reddit.com/svc/shreddit/t3_'' @ post_id @ ''/create-comment'',
      req_referer = post_url, req_cookies = cookies, req_csrf_token = csrf_token,
      req_text = ai_comment, req_format_range = (0, 0, length ai_comment)\<rparr>"

text \<open>
  \<open>post_comment_to_reddit\<close> (lines 69-152). Every call is an event of the trace, and
  so is a request that is sent; its outcome is the environment's answer to that request,
  the n-th the process sends.
\<close>

definition post_comment_to_reddit ::
  "env \<Rightarrow> comment \<Rightarrow> pydict \<Rightarrow> string \<Rightarrow> server_state \<Rightarrow> bool \<times> server_state" where
  "post_comment_to_reddit e comment cookies csrf_token s0 =
     (let s = s0\<lparr>trace := trace s0 @ [ExecutorCalled comment]\<rparr>;
          post_url = dict_get comment ''url'' [];
          ai_comment = dict_get comment ''ai_comment'' []
      in if post_url = [] \<or> ai_comment = [] then (False, s)
         else (case extract_post_id post_url of
                 None \<Rightarrow> (False, s)
               | Some post_id \<Rightarrow>
                   (let rq = build_request post_id post_url ai_comment cookies csrf_token;
                        answer = http_post e (length (http_requests_of (trace s))) rq;
                        s1 = s\<lparr>trace := trace s @ [HttpPosted rq]\<rparr>
                    in (case answer of
                          Status code \<Rightarrow> (code = 200, s1)
                        | Raised \<Rightarrow> (False, s1)))))"

section \<open>Bookkeeping shared by the worker and the keepalive route\<close>

text \<open>Lines 166-169 and 372-375: \<open>popleft\<close> under \<open>queue_lock\<close>.\<close>

definition popleft :: "server_state \<Rightarrow> comment option \<times> server_state" where
  "popleft s =
     (case comment_queue s of
        [] \<Rightarrow> (None, s)
      | c # rest \<Rightarrow> (Some c, s\<lparr>comment_queue := rest\<rparr>))"

text \<open>Lines 222-225 and 415-418: append, then drop the oldest entry past the bound.\<close>

definition history_append :: "result \<Rightarrow> result list \<Rightarrow> result list" where
  "history_append r h =
     (let h1 = h @ [r] in if length h1 > MAX_HISTORY then tl h1 else h1)"

text \<open>Lines 214-225 and 407-418: the result dict, stamped by a read of the clock.\<close>

definition make_result :: "comment \<Rightarrow> bool \<Rightarrow> string \<Rightarrow> result" where
  "make_result c success stamp =
     \<lparr>res_id = dict_get c ''id'' [], res_subreddit = dict_get c ''subreddit'' [],
      res_title = take 100 (dict_get c ''title'' []), res_success = success,
      res_posted_at = stamp\<rparr>"

definition record_result :: "env \<Rightarrow> comment \<Rightarrow> bool \<Rightarrow> server_state \<Rightarrow> server_state" where
  "record_result e c success s =
     s\<lparr>clock_reads := clock_reads s + 1,
       posting_history :=
         history_append (make_result c success (utc_now_iso e (clock_reads s)))
           (posting_history s)\<rparr>"

text \<open>Lines 206-212: the aggregate counters of the worker.\<close>

definition count_outcome :: "bool \<Rightarrow> server_state \<Rightarrow> server_state" where
  "count_outcome success s =
     (if success then s\<lparr>total_success := total_success s + 1\<rparr>
      else s\<lparr>total_fail := total_fail s + 1\<rparr>)"

section \<open>The background worker\<close>

datatype 'a loop_step = Continue 'a | Break 'a | Raise py_error 'a

text \<open>
  One pass through the body of \<open>while True\<close> in \<open>_worker_loop\<close> (lines 165-225). The
  thread's local \<open>is_first\<close> travels with the state. Lines 181-185 read the credentials
  and the wait range from the globals on every pass.

  Lines 188-191: the wait before every task but the first. The delay is whatever
  \<open>random.uniform\<close> makes of the stored bounds, which \<open>receive_comments\<close> stores as they
  come; when it is negative \<open>time.sleep\<close> raises, nothing in \<open>_worker_loop\<close> catches
  it, and the pass ends there with the state as it is at that moment.
\<close>

definition pace :: "env \<Rightarrow> bool \<Rightarrow> server_state \<Rightarrow> py_error \<times> server_state + server_state" where
  "pace e is_first s =
     (let min_w = min_wait s; max_w = max_wait s
      in if \<not> is_first
         then (case random_uniform e min_w max_w s of
                 (delay, s1) \<Rightarrow>
                   (case sleep delay s1 of
                      Inl err \<Rightarrow> Inl (err, s1)
                    | Inr s2 \<Rightarrow> Inr s2))
         else Inr s)"

text \<open>Lines 194-225: the task is posted and its outcome counted and recorded.\<close>

definition worker_execute ::
  "env \<Rightarrow> comment \<Rightarrow> pydict \<Rightarrow> string \<Rightarrow> server_state \<Rightarrow> server_state" where
  "worker_execute e c cookies csrf_token s =
     (case post_comment_to_reddit e c cookies csrf_token (s\<lparr>currently_posting := Some c\<rparr>) of
        (success, s1) \<Rightarrow>
          record_result e c success
            (count_outcome success (s1\<lparr>currently_posting := None\<rparr>)))"

text \<open>Lines 180-225: what a pass does with the task it has dequeued.\<close>

definition worker_post ::
  "env \<Rightarrow> bool \<Rightarrow> comment \<Rightarrow> server_state \<Rightarrow> py_error \<times> server_state + server_state" where
  "worker_post e is_first c s =
     (let cookies = (case session_cookies s of None \<Rightarrow> [] | Some ck \<Rightarrow> ck);
          csrf_token = (case session_csrf_token s of None \<Rightarrow> [] | Some tk \<Rightarrow> tk)
      in (case pace e is_first s of
            Inl failure \<Rightarrow> Inl failure
          | Inr s1 \<Rightarrow> Inr (worker_execute e c cookies csrf_token s1)))"

definition worker_iteration ::
  "env \<Rightarrow> bool \<times> server_state \<Rightarrow> (bool \<times> server_state) loop_step" where
  "worker_iteration e x =
     (case x of (is_first, s) \<Rightarrow>
        (case popleft s of
           (None, s1) \<Rightarrow>
             (let s2 = slept 1 s1
              in if comment_queue s2 = [] \<and> \<not> worker_running s2
                 then Break (is_first, s2) else Continue (is_first, s2))
         | (Some c, s1) \<Rightarrow>
             (case worker_post e is_first c s1 of
                Inl (err, s2) \<Rightarrow> Raise err (is_first, s2)
              | Inr s2 \<Rightarrow> Continue (False, s2))))"

text \<open>
  \<open>_worker_loop\<close> with \<open>is_first = True\<close> at entry. The loop has no bound of its own:
  \<open>worker_passes\<close> runs at most the given number of passes and says whether the loop
  was left by the \<open>break\<close> of line 177 (\<open>Break\<close>), was left by an exception
  (\<open>Raise\<close>) or is still running (\<open>Continue\<close>). \<open>worker_loop\<close> returns \<open>None\<close> when
  the thread is still in the loop after that many passes, and otherwise how the thread
  ended. No other thread touches the state between two passes.
\<close>

fun worker_passes ::
  "env \<Rightarrow> nat \<Rightarrow> bool \<times> server_state \<Rightarrow> (bool \<times> server_state) loop_step" where
  "worker_passes e 0 x = Continue x"
| "worker_passes e (Suc n) x =
     (case worker_iteration e x of
        Break x1 \<Rightarrow> Break x1
      | Raise err x1 \<Rightarrow> Raise err x1
      | Continue x1 \<Rightarrow> worker_passes e n x1)"

datatype worker_end = Exited server_state | Died py_error server_state

definition worker_loop :: "env \<Rightarrow> nat \<Rightarrow> server_state \<Rightarrow> worker_end option" where
  "worker_loop e fuel s =
     (case worker_passes e fuel (True, s) of
        Break (is_first, s1) \<Rightarrow> Some (Exited s1)
      | Raise err (is_first, s1) \<Rightarrow> Some (Died err s1)
      | Continue x \<Rightarrow> None)"


text \<open>
  The state in which the executor is called once the wait of lines 188-191 has returned,
  with the delay written out as \<open>random.uniform\<close> computes it.
\<close>

definition paced :: "env \<Rightarrow> bool \<Rightarrow> server_state \<Rightarrow> server_state" where
  "paced e is_first s =
     (if is_first then s
      else slept (min_wait s + (max_wait s - min_wait s)
                    * Rep_unit_draw (random_random e (random_draws s)))
             (s\<lparr>random_draws := random_draws s + 1\<rparr>))"

text \<open>A wait range from which no negative delay can be drawn.\<close>

definition wait_range_ok :: "server_state \<Rightarrow> bool" where
  "wait_range_ok s = (0 \<le> min_wait s \<and> min_wait s \<le> max_wait s)"

section \<open>The lifecycle: ensure_worker\<close>

text \<open>The four statements of \<open>_ensure_worker\<close> (lines 234-239), one definition each.\<close>

definition worker_is_alive :: "server_state \<Rightarrow> bool" where
  "worker_is_alive s =
     (case worker_thread s of
        None \<Rightarrow> False
      | Some t \<Rightarrow> t < length (threads s) \<and> threads s ! t = Running)"

definition set_worker_running :: "server_state \<Rightarrow> server_state" where
  "set_worker_running s = s\<lparr>worker_running := True\<rparr>"

definition create_worker_thread :: "server_state \<Rightarrow> server_state" where
  "create_worker_thread s =
     s\<lparr>threads := threads s @ [Created], worker_thread := Some (length (threads s))\<rparr>"

text \<open>
  \<open>worker_thread.start()\<close> starts the thread the global refers to at that moment;
  starting a thread a second time raises RuntimeError, which is \<open>None\<close>.
\<close>

definition start_worker_thread :: "server_state \<Rightarrow> server_state option" where
  "start_worker_thread s =
     (case worker_thread s of
        None \<Rightarrow> None
      | Some t \<Rightarrow>
          if t < length (threads s) \<and> threads s ! t = Created
          then Some (s\<lparr>threads := (threads s)[t := Running]\<rparr>)
          else None)"

definition ensure_worker :: "server_state \<Rightarrow> server_state option" where
  "ensure_worker s =
     (if worker_is_alive s then Some s
      else start_worker_thread (create_worker_thread (set_worker_running s)))"

definition live_workers :: "server_state \<Rightarrow> nat" where
  "live_workers s = length (filter (\<lambda>st. st = Running) (threads s))"

text \<open>
  Several request threads inside \<open>_ensure_worker\<close> at once. The function takes no lock,
  so another thread may run between any two of its statements; a thread is at one of the
  four statements, has returned, or has died of the RuntimeError. A schedule names the
  thread that runs its next statement.
\<close>

datatype pc = AtCheck | AtSetFlag | AtCreate | AtStart | Returned | Crashed

fun ensure_worker_step :: "pc \<Rightarrow> server_state \<Rightarrow> pc \<times> server_state" where
  "ensure_worker_step AtCheck s = (if worker_is_alive s then (Returned, s) else (AtSetFlag, s))"
| "ensure_worker_step AtSetFlag s = (AtCreate, set_worker_running s)"
| "ensure_worker_step AtCreate s = (AtStart, create_worker_thread s)"
| "ensure_worker_step AtStart s =
     (case start_worker_thread s of None \<Rightarrow> (Crashed, s) | Some s1 \<Rightarrow> (Returned, s1))"
| "ensure_worker_step Returned s = (Returned, s)"
| "ensure_worker_step Crashed s = (Crashed, s)"

fun interleave :: "nat list \<Rightarrow> pc list \<times> server_state \<Rightarrow> pc list \<times> server_state" where
  "interleave [] cfg = cfg"
| "interleave (t # sched) (pcs, s) =
     (if t < length pcs
      then (case ensure_worker_step (pcs ! t) s of
              (p, s1) \<Rightarrow> interleave sched (pcs[t := p], s1))
      else interleave sched (pcs, s))"

text \<open>
  The thread \<open>_ensure_worker\<close> starts runs \<open>_worker_loop\<close> and is no longer alive once
  the loop is left.
\<close>

definition worker_thread_run :: "env \<Rightarrow> nat \<Rightarrow> nat \<Rightarrow> server_state \<Rightarrow> server_state option" where
  "worker_thread_run e fuel t s =
     (case worker_loop e fuel s of
        None \<Rightarrow> None
      | Some (Exited s1) \<Rightarrow> Some (s1\<lparr>threads := (threads s1)[t := Finished]\<rparr>)
      | Some (Died err s1) \<Rightarrow> Some (s1\<lparr>threads := (threads s1)[t := Finished]\<rparr>))"

section \<open>The routes\<close>

text \<open>
  The JSON body of POST /api/comments (lines 256-271): a dict whose keys may be absent.
  min_wait and max_wait are JSON numbers.
\<close>

record submission =
  body_comments :: "comment list option"
  body_cookies :: "pydict option"
  body_csrf_token :: "string option"
  body_min_wait :: "real option"
  body_max_wait :: "real option"

record accepted =
  enqueued_ids :: "string list"
  queue_size :: nat

type_synonym rejected = "nat \<times> string"

definition body_is_empty :: "submission \<Rightarrow> bool" where
  "body_is_empty d =
     (body_comments d = None \<and> body_cookies d = None \<and> body_csrf_token d = None
      \<and> body_min_wait d = None \<and> body_max_wait d = None)"

text \<open>Lines 299-305: one \<open>uuid4\<close> per comment, cut to its first eight characters.\<close>

fun enqueue_all :: "env \<Rightarrow> comment list \<Rightarrow> string list \<times> server_state \<Rightarrow> string list \<times> server_state" where
  "enqueue_all e [] acc = acc"
| "enqueue_all e (c # cs) (ids, s) =
     (let comment_id = take 8 (uuid4_str e (uuid_draws s));
          c1 = dict_set c ''id'' comment_id
      in enqueue_all e cs
           (ids @ [comment_id],
            s\<lparr>uuid_draws := uuid_draws s + 1, comment_queue := comment_queue s @ [c1]\<rparr>))"

text \<open>
  \<open>receive_comments\<close> (lines 273-325). A rejection is the status code with the error
  text; an unhandled exception is the 500 Flask answers with. The message of the 200
  answer only prints the batch size and is left out.
\<close>

definition receive_comments ::
  "env \<Rightarrow> submission \<Rightarrow> server_state \<Rightarrow> (rejected + accepted) \<times> server_state" where
  "receive_comments e d s =
     (if body_is_empty d then (Inl (400, ''No JSON body provided''), s)
      else
        (let comments = (case body_comments d of None \<Rightarrow> [] | Some cs \<Rightarrow> cs)
         in if comments = [] then (Inl (400, ''No comments provided''), s)
            else
              (let cookies = (case body_cookies d of None \<Rightarrow> [] | Some ck \<Rightarrow> ck);
                   csrf_token = (case body_csrf_token d of None \<Rightarrow> [] | Some tk \<Rightarrow> tk)
               in if cookies = [] \<or> csrf_token = []
                  then (Inl (400, ''Missing cookies or csrf_token''), s)
                  else
                    (let min_w = (case body_min_wait d of None \<Rightarrow> 4 | Some w \<Rightarrow> w);
                         max_w = (case body_max_wait d of None \<Rightarrow> 6 | Some w \<Rightarrow> w);
                         s1 = s\<lparr>session_cookies := Some cookies,
                                session_csrf_token := Some csrf_token,
                                min_wait := min_w, max_wait := max_w\<rparr>
                     in (case enqueue_all e comments ([], s1) of
                           (ids, s2) \<Rightarrow>
                             (let s3 = s2\<lparr>total_received :=
                                             total_received s2 + int (length comments)\<rparr>
                              in (case ensure_worker s3 of
                                    None \<Rightarrow> (Inl (500, ''Internal Server Error''), s3)
                                  | Some s4 \<Rightarrow>
                                      (Inr \<lparr>enqueued_ids = ids,
                                            queue_size = length (comment_queue s4)\<rparr>,
                                       s4))))))))"

text \<open>Lines 384-391: \<open>for attempt in range(1, 4)\<close>, over the attempts still to make.\<close>

fun retry_post ::
  "env \<Rightarrow> nat list \<Rightarrow> comment \<Rightarrow> pydict \<Rightarrow> string \<Rightarrow> server_state \<Rightarrow> bool \<times> server_state" where
  "retry_post e [] c cookies csrf_token s = (False, s)"
| "retry_post e (attempt # rest) c cookies csrf_token s =
     (case post_comment_to_reddit e c cookies csrf_token s of
        (success, s1) \<Rightarrow>
          if success then (True, s1)
          else retry_post e rest c cookies csrf_token (slept 2 s1))"

text \<open>
  The body of the loop of \<open>keepalive\<close> after the dequeue (lines 379-422), with the
  route's locals \<open>posted\<close> and \<open>failed\<close>.
\<close>

definition keepalive_task ::
  "env \<Rightarrow> pydict \<Rightarrow> string \<Rightarrow> comment \<Rightarrow> (int \<times> int) \<times> server_state \<Rightarrow> (int \<times> int) \<times> server_state" where
  "keepalive_task e cookies csrf_token c x =
     (case x of ((posted, failed), s) \<Rightarrow>
        (case retry_post e [1 ..< 4] c cookies csrf_token (s\<lparr>currently_posting := Some c\<rparr>) of
           (success, s1) \<Rightarrow>
             (let s2 = s1\<lparr>currently_posting := None\<rparr>;
                  s3 = count_outcome success s2;
                  tally = (if success then (posted + 1, failed) else (posted, failed + 1));
                  s4 = record_result e c success s3;
                  s5 = (if comment_queue s4 \<noteq> []
                        then (case random_uniform e 2 4 s4 of (gap, s5) \<Rightarrow> slept gap s5)
                        else s4)
              in (tally, s5))))"


lemma comment_queue_sleep [simp]: "comment_queue (slept d s) = comment_queue s"
  by (simp add: slept_def)

lemma comment_queue_post [simp]:
  "comment_queue (snd (post_comment_to_reddit e c ck tk s)) = comment_queue s"
  by (simp add: post_comment_to_reddit_def Let_def split: option.splits http_outcome.splits)


lemma comment_queue_count [simp]: "comment_queue (count_outcome b s) = comment_queue s"
  by (simp add: count_outcome_def)

lemma comment_queue_record [simp]: "comment_queue (record_result e c b s) = comment_queue s"
  by (simp add: record_result_def)

lemma keepalive_task_unfold:
  assumes "retry_post e [1 ..< 4] c ck tk (s\<lparr>currently_posting := Some c\<rparr>) = (ok, s1)"
  shows "keepalive_task e ck tk c ((posted, failed), s) =
        (let s2 = s1\<lparr>currently_posting := None\<rparr>;
             s3 = count_outcome ok s2;
             tally = (if ok then (posted + 1, failed) else (posted, failed + 1));
             s4 = record_result e c ok s3;
             s5 = (if comment_queue s4 \<noteq> []
                   then (case random_uniform e 2 4 s4 of (gap, s5) \<Rightarrow> slept gap s5)
                   else s4)
         in (tally, s5))"
  unfolding keepalive_task_def by (simp only: assms prod.case)





text \<open>\<open>clear_queue\<close> (lines 433-439).\<close>

definition clear_queue :: "server_state \<Rightarrow> nat \<times> server_state" where
  "clear_queue s = (length (comment_queue s), s\<lparr>comment_queue := []\<rparr>)"

section \<open>Sequences of completions\<close>

text \<open>
  A task is completed either by the worker (lines 194-225, once the wait before it has
  returned, with the credentials read in that pass) or by the keepalive route (lines
  379-422, with the credentials it read at entry). A run of completions applies them in
  order.
\<close>

datatype completion = ByWorker pydict string comment | ByKeepalive pydict string comment

fun apply_completion :: "env \<Rightarrow> server_state \<Rightarrow> completion \<Rightarrow> server_state" where
  "apply_completion e s (ByWorker ck tk c) = worker_execute e c ck tk s"
| "apply_completion e s (ByKeepalive ck tk c) = snd (keepalive_task e ck tk c ((0, 0), s))"

fun task_of :: "completion \<Rightarrow> comment" where
  "task_of (ByWorker ck tk c) = c"
| "task_of (ByKeepalive ck tk c) = c"

section \<open>Accepted submissions\<close>

text \<open>
  The identifiers a batch of k comments gets when n draws of \<open>uuid4\<close> were made before
  it, the batch with those identifiers written into the comments, and the state lines
  292-310 leave behind for an accepted body.
\<close>

definition tag_all :: "comment list \<Rightarrow> string list \<Rightarrow> comment list" where
  "tag_all cs ids = map (\<lambda>(c, i). dict_set c ''id'' i) (zip cs ids)"

definition drawn_ids :: "env \<Rightarrow> nat \<Rightarrow> nat \<Rightarrow> string list" where
  "drawn_ids e n k = map (\<lambda>i. take 8 (uuid4_str e i)) [n ..< n + k]"

definition accept_state :: "env \<Rightarrow> submission \<Rightarrow> comment list \<Rightarrow> pydict \<Rightarrow> string \<Rightarrow> server_state \<Rightarrow> server_state" where
  "accept_state e d comments cookies tk s =
     s\<lparr>session_cookies := Some cookies, session_csrf_token := Some tk,
       min_wait := (case body_min_wait d of None \<Rightarrow> 4 | Some w \<Rightarrow> w),
       max_wait := (case body_max_wait d of None \<Rightarrow> 6 | Some w \<Rightarrow> w),
       uuid_draws := uuid_draws s + length comments,
       comment_queue := comment_queue s
          @ tag_all comments (drawn_ids e (uuid_draws s) (length comments)),
       total_received := total_received s + int (length comments)\<rparr>"

text \<open>
  The identifiers handed out over a run of submissions, in the order they are assigned.
\<close>

fun lifetime_ids :: "env \<Rightarrow> submission list \<Rightarrow> server_state \<Rightarrow> string list" where
  "lifetime_ids e [] s = []"
| "lifetime_ids e (d # ds) s =
     (case receive_comments e d s of
        (Inl err, s1) \<Rightarrow> lifetime_ids e ds s1
      | (Inr a, s1) \<Rightarrow> enqueued_ids a @ lifetime_ids e ds s1)"

section \<open>Example inputs\<close>

definition comment0 :: comment where
  "comment0 =
     [(''title'', ''A post''), (''subreddit'', ''test''), (''ai_comment'', ''Nice.''),
      (''url'', ''https://www.reddit.com/r/test/comments/abc123/a_post/'')]"

definition env0 :: env where
  "env0 =
     \<lparr>uuid4_str = (\<lambda>n. if n = 0 then ''0b5e6f3a-9d1c-4c55-8a43-1f0e2d3c4b5a''
                        else ''7c9e6679-7425-40de-944b-e07fc1f90ae7''),
      random_random = (\<lambda>n. Abs_unit_draw (1 / 2)),
      utc_now_iso = (\<lambda>n. ''2024-01-01T00:00:00+00:00''),
      http_post = (\<lambda>n rq. Status 200)\<rparr>"

definition result0 :: result where
  "result0 = make_result comment0 True ''2024-01-01T00:00:00+00:00''"

definition full_history_state :: server_state where
  "full_history_state = initial_state\<lparr>posting_history := replicate 500 result0\<rparr>"

definition collide_env :: env where
  "collide_env =
     \<lparr>uuid4_str = (\<lambda>n. if n = 0 then ''deadbeef-1c2d-4e3f-8a4b-5c6d7e8f9a0b''
                        else ''deadbeef-9f8e-4d7c-b6a5-44332211ffee''),
      random_random = (\<lambda>n. Abs_unit_draw (1 / 2)),
      utc_now_iso = (\<lambda>n. ''2024-01-01T00:00:00+00:00''),
      http_post = (\<lambda>n rq. Status 200)\<rparr>"

definition comment1 :: comment where
  "comment1 =
     [(''title'', ''Another post''), (''subreddit'', ''test''), (''ai_comment'', ''Agreed.''),
      (''url'', ''https://www.reddit.com/r/test/comments/def456/another_post/'')]"

definition submission0 :: submission where
  "submission0 =
     \<lparr>body_comments = Some [comment0, comment1], body_cookies = Some [(''reddit_session'', ''abc'')],
      body_csrf_token = Some ''tok'', body_min_wait = Some 0, body_max_wait = Some 0\<rparr>"

definition empty_batch :: submission where
  "empty_batch =
     \<lparr>body_comments = Some [], body_cookies = Some [(''reddit_session'', ''abc'')],
      body_csrf_token = Some ''tok'', body_min_wait = None, body_max_wait = None\<rparr>"

definition flaky_env :: env where
  "flaky_env = env0\<lparr>http_post := (\<lambda>n rq. if n < 2 then Status 503 else Status 200)\<rparr>"

definition failing_env :: env where
  "failing_env = env0\<lparr>http_post := (\<lambda>n rq. if n = 1 then Raised else Status 403)\<rparr>"

definition cookies0 :: pydict where
  "cookies0 = [(''reddit_session'', ''abc'')]"







section \<open>The history bound\<close>

lemma length_history_append:
  "length h \<le> MAX_HISTORY \<Longrightarrow> length (history_append r h) \<le> MAX_HISTORY"
  by (auto simp: history_append_def Let_def)

lemma history_fold:
  "length h \<le> MAX_HISTORY \<Longrightarrow>
   foldl (\<lambda>h r. history_append r h) h rs = drop (length (h @ rs) - MAX_HISTORY) (h @ rs)"
proof (induction rs arbitrary: h)
  case Nil
  then show ?case by simp
next
  case (Cons r rs)
  have len: "length (history_append r h) \<le> MAX_HISTORY"
    using Cons.prems by (rule length_history_append)
  show ?case
  proof (cases "length h < MAX_HISTORY")
    case True
    then have "history_append r h = h @ [r]"
      by (simp add: history_append_def Let_def)
    with Cons.IH [OF len] show ?thesis by simp
  next
    case False
    with Cons.prems have eq: "length h = MAX_HISTORY" by simp
    then obtain x h1 where h: "h = x # h1" by (cases h) (auto simp: MAX_HISTORY_def)
    have ha: "history_append r h = h1 @ [r]"
      using eq by (simp add: history_append_def Let_def h)
    have l1: "length ((h1 @ [r]) @ rs) - MAX_HISTORY = length rs" using eq h by simp
    have l2: "length (h @ r # rs) - MAX_HISTORY = Suc (length rs)" using eq by simp
    have "foldl (\<lambda>h r. history_append r h) h (r # rs) =
          drop (length ((h1 @ [r]) @ rs) - MAX_HISTORY) ((h1 @ [r]) @ rs)"
      using Cons.IH [OF len] by (simp only: ha foldl_Cons)
    also have "\<dots> = drop (length rs) (h1 @ r # rs)" by (simp only: l1) simp
    also have "\<dots> = drop (Suc (length rs)) (h @ r # rs)" by (simp add: h)
    finally show ?thesis by (simp only: l2)
  qed
qed

lemma history_record_result:
  "posting_history (record_result e c ok s) =
   history_append (make_result c ok (utc_now_iso e (clock_reads s))) (posting_history s)"
  by (simp add: record_result_def)

lemma history_post [simp]:
  "posting_history (snd (post_comment_to_reddit e c ck tk s)) = posting_history s"
  by (simp add: post_comment_to_reddit_def Let_def split: option.splits http_outcome.splits)

lemma history_sleep [simp]: "posting_history (slept d s) = posting_history s"
  by (simp add: slept_def)

lemma history_count [simp]: "posting_history (count_outcome b s) = posting_history s"
  by (simp add: count_outcome_def)

lemma history_retry [simp]:
  "posting_history (snd (retry_post e as c ck tk s)) = posting_history s"
proof (induction as arbitrary: s)
  case Nil
  show ?case by simp
next
  case (Cons a as)
  have "posting_history (snd (post_comment_to_reddit e c ck tk s)) = posting_history s"
    by simp
  with Cons show ?case
    by (cases "post_comment_to_reddit e c ck tk s") simp
qed

lemma history_worker_execute:
  "\<exists>ok stamp. posting_history (worker_execute e c ck tk s) =
     history_append (make_result c ok stamp) (posting_history s)"
proof -
  define s2 where "s2 = s\<lparr>currently_posting := Some c\<rparr>"
  obtain ok s3 where p: "post_comment_to_reddit e c ck tk s2 = (ok, s3)"
    by (cases "post_comment_to_reddit e c ck tk s2")
  have "posting_history (snd (post_comment_to_reddit e c ck tk s2)) = posting_history s2"
    by (rule history_post)
  with p have h3: "posting_history s3 = posting_history s" by (simp add: s2_def)
  have w: "worker_execute e c ck tk s =
        record_result e c ok (count_outcome ok (s3\<lparr>currently_posting := None\<rparr>))"
    using p by (simp add: worker_execute_def s2_def)
  show ?thesis
    unfolding w history_record_result by (intro exI) (simp add: h3)
qed

lemma history_keepalive_task:
  "\<exists>ok stamp. posting_history (snd (keepalive_task e ck tk c (acc, s))) =
     history_append (make_result c ok stamp) (posting_history s)"
proof -
  obtain posted failed where acc: "acc = (posted, failed)" by (cases acc)
  obtain ok s1 where r: "retry_post e [1 ..< 4] c ck tk (s\<lparr>currently_posting := Some c\<rparr>) = (ok, s1)"
    by (cases "retry_post e [1 ..< 4] c ck tk (s\<lparr>currently_posting := Some c\<rparr>)")
  have "posting_history (snd (retry_post e [1 ..< 4] c ck tk (s\<lparr>currently_posting := Some c\<rparr>)))
        = posting_history (s\<lparr>currently_posting := Some c\<rparr>)"
    by (rule history_retry)
  with r have q: "posting_history s1 = posting_history s" by simp
  have "posting_history (snd (keepalive_task e ck tk c (acc, s))) =
        history_append (make_result c ok
           (utc_now_iso e (clock_reads (count_outcome ok (s1\<lparr>currently_posting := None\<rparr>)))))
          (posting_history s)"
    unfolding acc keepalive_task_unfold [OF r]
    by (simp add: q Let_def random_uniform_def history_record_result)
  then show ?thesis by blast
qed

lemma history_complete:
  "\<exists>r. res_id r = dict_get (task_of k) ''id'' [] \<and>
     posting_history (apply_completion e s k) = history_append r (posting_history s)"
proof (cases k)
  case (ByWorker ck tk c)
  obtain ok stamp where "posting_history (worker_execute e c ck tk s) =
     history_append (make_result c ok stamp) (posting_history s)"
    using history_worker_execute by blast
  then show ?thesis
    unfolding ByWorker by (intro exI [of _ "make_result c ok stamp"]) (simp add: make_result_def)
next
  case (ByKeepalive ck tk c)
  obtain ok stamp where "posting_history (snd (keepalive_task e ck tk c ((0, 0), s))) =
     history_append (make_result c ok stamp) (posting_history s)"
    using history_keepalive_task by blast
  then show ?thesis
    unfolding ByKeepalive by (intro exI [of _ "make_result c ok stamp"]) (simp add: make_result_def)
qed

lemma history_completions:
  "\<exists>rs. map res_id rs = map (\<lambda>k. dict_get (task_of k) ''id'' []) ks \<and>
     posting_history (foldl (apply_completion e) s ks) =
       foldl (\<lambda>h r. history_append r h) (posting_history s) rs"
proof (induction ks arbitrary: s)
  case Nil
  show ?case by (rule exI [of _ "[]"]) simp
next
  case (Cons k ks)
  obtain r where r: "res_id r = dict_get (task_of k) ''id'' []"
    "posting_history (apply_completion e s k) = history_append r (posting_history s)"
    using history_complete by blast
  obtain rs where rs: "map res_id rs = map (\<lambda>k. dict_get (task_of k) ''id'' []) ks"
    "posting_history (foldl (apply_completion e) (apply_completion e s k) ks) =
       foldl (\<lambda>h r. history_append r h) (posting_history (apply_completion e s k)) rs"
    using Cons.IH by blast
  show ?case
    by (rule exI [of _ "r # rs"]) (simp add: r rs)
qed

text \<open>
  Claim C9. The history is only ever appended to and never exceeds MAX_HISTORY = 500
  entries: starting from a history within the bound, after any sequence of completions
  by the worker or by the keepalive route the history is the old history followed by one
  result per completion, in completion order, cut to its last 500 entries. So the oldest
  entries are the ones evicted, and after 500 + k completions exactly 500 remain.
\<close>

theorem history_bound:
  assumes "length (posting_history s) \<le> MAX_HISTORY"
  shows "(\<exists>rs. map res_id rs = map (\<lambda>k. dict_get (task_of k) ''id'' []) ks
            \<and> posting_history (foldl (apply_completion e) s ks) =
                drop (length (posting_history s @ rs) - MAX_HISTORY) (posting_history s @ rs))
         \<and> length (posting_history (foldl (apply_completion e) s ks)) =
               min (length (posting_history s) + length ks) MAX_HISTORY"
proof -
  obtain rs where rs: "map res_id rs = map (\<lambda>k. dict_get (task_of k) ''id'' []) ks"
    "posting_history (foldl (apply_completion e) s ks) =
       foldl (\<lambda>h r. history_append r h) (posting_history s) rs"
    using history_completions by blast
  have len: "length rs = length ks"
    using rs(1) by (metis length_map)
  have d: "posting_history (foldl (apply_completion e) s ks) =
        drop (length (posting_history s @ rs) - MAX_HISTORY) (posting_history s @ rs)"
    unfolding rs(2) using assms by (rule history_fold)
  have "length (posting_history (foldl (apply_completion e) s ks)) =
        min (length (posting_history s) + length ks) MAX_HISTORY"
    unfolding d using len by simp
  with rs(1) d show ?thesis by blast
qed

theorem history_bound_witness:
  "length (posting_history full_history_state) \<le> MAX_HISTORY
   \<and> length (posting_history
        (foldl (apply_completion env0) full_history_state
           [ByWorker [] [] comment0, ByKeepalive [] [] comment0])) = 500"
  using history_bound [of full_history_state "[ByWorker [] [] comment0, ByKeepalive [] [] comment0]" env0]
  by (simp add: full_history_state_def MAX_HISTORY_def)

section \<open>Submissions\<close>

lemma drawn_ids_Suc: "drawn_ids e n (Suc k) = take 8 (uuid4_str e n) # drawn_ids e (Suc n) k"
  by (simp add: drawn_ids_def upt_rec)

lemma length_drawn_ids [simp]: "length (drawn_ids e n k) = k"
  by (simp add: drawn_ids_def)

lemma enqueue_all_eq:
  "enqueue_all e cs (ids, s) =
     (ids @ drawn_ids e (uuid_draws s) (length cs),
      s\<lparr>uuid_draws := uuid_draws s + length cs,
        comment_queue := comment_queue s @ tag_all cs (drawn_ids e (uuid_draws s) (length cs))\<rparr>)"
proof (induction cs arbitrary: ids s)
  case Nil
  show ?case by (simp add: drawn_ids_def tag_all_def)
next
  case (Cons c cs)
  show ?case
    by (simp add: Cons.IH Let_def drawn_ids_Suc tag_all_def)
qed

lemma ensure_worker_eq:
  "ensure_worker s =
     Some (if worker_is_alive s then s
           else s\<lparr>worker_running := True, threads := threads s @ [Running],
                  worker_thread := Some (length (threads s))\<rparr>)"
  by (simp add: ensure_worker_def start_worker_thread_def create_worker_thread_def
      set_worker_running_def)


lemma receive_comments_accepts:
  assumes "body_comments d = Some comments" and "comments \<noteq> []"
    and "body_cookies d = Some cookies" and "cookies \<noteq> []"
    and "body_csrf_token d = Some tk" and "tk \<noteq> []"
  shows "receive_comments e d s =
     (Inr \<lparr>enqueued_ids = drawn_ids e (uuid_draws s) (length comments),
           queue_size = length (comment_queue s) + length comments\<rparr>,
      the (ensure_worker (accept_state e d comments cookies tk s)))"
proof -
  have ne: "\<not> body_is_empty d" using assms(1) by (simp add: body_is_empty_def)
  show ?thesis
    using assms ne
    by (simp add: receive_comments_def Let_def enqueue_all_eq ensure_worker_eq
        accept_state_def tag_all_def)
qed

lemma receive_comments_rejects:
  assumes "body_comments d = None \<or> body_comments d = Some []
         \<or> body_cookies d = None \<or> body_cookies d = Some []
         \<or> body_csrf_token d = None \<or> body_csrf_token d = Some []"
  shows "\<exists>msg. receive_comments e d s = (Inl (400, msg), s)"
  using assms
  by (auto simp: receive_comments_def Let_def split: option.splits)


lemma dict_get_set [simp]: "dict_get (dict_set c k v) k dflt = v"
  by (simp add: dict_get_def dict_set_def update_conv')

lemma ids_of_tag_all:
  "length ids = length cs \<Longrightarrow> map (\<lambda>c. dict_get c ''id'' []) (tag_all cs ids) = ids"
  unfolding tag_all_def
  by (induction cs ids rule: list_induct2') simp_all

lemma queue_accept_state:
  "comment_queue (the (ensure_worker (accept_state e d comments cookies tk s))) =
     comment_queue s @ tag_all comments (drawn_ids e (uuid_draws s) (length comments))"
  by (simp add: ensure_worker_eq accept_state_def)

lemma received_accept_state:
  "total_received (the (ensure_worker (accept_state e d comments cookies tk s))) =
     total_received s + int (length comments)"
  by (simp add: ensure_worker_eq accept_state_def)

lemma draws_accept_state:
  "uuid_draws (the (ensure_worker (accept_state e d comments cookies tk s))) =
     uuid_draws s + length comments"
  by (simp add: ensure_worker_eq accept_state_def)

lemma complete_submission:
  assumes "\<not> (body_comments d = None \<or> body_comments d = Some []
         \<or> body_cookies d = None \<or> body_cookies d = Some []
         \<or> body_csrf_token d = None \<or> body_csrf_token d = Some [])"
  obtains comments cookies tk where "body_comments d = Some comments" "comments \<noteq> []"
     "body_cookies d = Some cookies" "cookies \<noteq> []"
     "body_csrf_token d = Some tk" "tk \<noteq> []"
proof -
  from assms obtain comments where a: "body_comments d = Some comments" "comments \<noteq> []"
    by (cases "body_comments d") simp_all
  from assms obtain cookies where b: "body_cookies d = Some cookies" "cookies \<noteq> []"
    by (cases "body_cookies d") simp_all
  from assms obtain tk where c: "body_csrf_token d = Some tk" "tk \<noteq> []"
    by (cases "body_csrf_token d") simp_all
  show thesis by (rule that [OF a b c])
qed

lemma receive_comments_cases:
  "(\<exists>msg. receive_comments e d s = (Inl (400, msg), s)) \<or>
   (\<exists>k s1. receive_comments e d s =
       (Inr \<lparr>enqueued_ids = drawn_ids e (uuid_draws s) k,
             queue_size = length (comment_queue s) + k\<rparr>, s1)
     \<and> uuid_draws s1 = uuid_draws s + k)"
proof (cases "body_comments d = None \<or> body_comments d = Some []
         \<or> body_cookies d = None \<or> body_cookies d = Some []
         \<or> body_csrf_token d = None \<or> body_csrf_token d = Some []")
  case True
  then have "\<exists>msg. receive_comments e d s = (Inl (400, msg), s)"
    by (rule receive_comments_rejects)
  then show ?thesis by (rule disjI1)
next
  case False
  then obtain comments cookies tk where h: "body_comments d = Some comments" "comments \<noteq> []"
     "body_cookies d = Some cookies" "cookies \<noteq> []"
     "body_csrf_token d = Some tk" "tk \<noteq> []"
    by (rule complete_submission)
  have "receive_comments e d s =
       (Inr \<lparr>enqueued_ids = drawn_ids e (uuid_draws s) (length comments),
             queue_size = length (comment_queue s) + length comments\<rparr>,
        the (ensure_worker (accept_state e d comments cookies tk s)))
     \<and> uuid_draws (the (ensure_worker (accept_state e d comments cookies tk s)))
         = uuid_draws s + length comments"
    using receive_comments_accepts [OF h, of e s] draws_accept_state [of e d comments cookies tk s]
    by (rule conjI)
  then have "\<exists>k s1. receive_comments e d s =
       (Inr \<lparr>enqueued_ids = drawn_ids e (uuid_draws s) k,
             queue_size = length (comment_queue s) + k\<rparr>, s1)
     \<and> uuid_draws s1 = uuid_draws s + k"
    by (intro exI)
  then show ?thesis by (rule disjI2)
qed


lemma drawn_ids_add: "drawn_ids e n (k + m) = drawn_ids e n k @ drawn_ids e (n + k) m"
proof -
  have "[n ..< n + k + m] = [n ..< n + k] @ [n + k ..< n + k + m]"
    by (rule upt_add_eq_append) simp
  then show ?thesis
    unfolding drawn_ids_def by (simp only: map_append add.assoc)
qed

lemma lifetime_ids_drawn:
  "lifetime_ids e ds s = drawn_ids e (uuid_draws s) (length (lifetime_ids e ds s))"
proof (induction ds arbitrary: s)
  case Nil
  show ?case by (simp add: drawn_ids_def)
next
  case (Cons d ds)
  from receive_comments_cases [of e d s] show ?case
  proof
    assume "\<exists>msg. receive_comments e d s = (Inl (400, msg), s)"
    then obtain msg where r: "receive_comments e d s = (Inl (400, msg), s)" ..
    have "lifetime_ids e (d # ds) s = lifetime_ids e ds s" by (simp add: r)
    with Cons.IH [of s] show ?thesis by simp
  next
    assume "\<exists>k s1. receive_comments e d s =
       (Inr \<lparr>enqueued_ids = drawn_ids e (uuid_draws s) k,
             queue_size = length (comment_queue s) + k\<rparr>, s1)
       \<and> uuid_draws s1 = uuid_draws s + k"
    then obtain k s1 where r: "receive_comments e d s =
       (Inr \<lparr>enqueued_ids = drawn_ids e (uuid_draws s) k,
             queue_size = length (comment_queue s) + k\<rparr>, s1)"
      and u: "uuid_draws s1 = uuid_draws s + k" by (elim exE conjE)
    have l: "lifetime_ids e (d # ds) s = drawn_ids e (uuid_draws s) k @ lifetime_ids e ds s1"
      by (simp add: r)
    have "drawn_ids e (uuid_draws s) k @ lifetime_ids e ds s1 = drawn_ids e (uuid_draws s) k
          @ drawn_ids e (uuid_draws s + k) (length (lifetime_ids e ds s1))"
      using Cons.IH [of s1] by (simp only: u)
    also have "\<dots> = drawn_ids e (uuid_draws s) (k + length (lifetime_ids e ds s1))"
      by (simp only: drawn_ids_add)
    also have "\<dots> = drawn_ids e (uuid_draws s) (length (lifetime_ids e (d # ds) s))"
      by (simp only: l length_append length_drawn_ids)
    finally show ?thesis by (simp only: l)
  qed
qed


text \<open>
  Claim C5. A body with a non-empty batch of n comments, non-empty cookies and a
  non-empty token is accepted: the answer carries n identifiers, one per comment in
  order, the n comments are appended to the tail of the queue in the order of the batch,
  each carrying its identifier, and \<open>total_received\<close> grows by exactly n.
\<close>

theorem enqueue_contract:
  assumes "body_comments d = Some comments" and "comments \<noteq> []"
    and "body_cookies d = Some cookies" and "cookies \<noteq> []"
    and "body_csrf_token d = Some tk" and "tk \<noteq> []"
  shows "\<exists>ids s1. receive_comments e d s =
            (Inr \<lparr>enqueued_ids = ids,
                  queue_size = length (comment_queue s) + length comments\<rparr>, s1)
         \<and> length ids = length comments
         \<and> comment_queue s1 = comment_queue s @ tag_all comments ids
         \<and> map (\<lambda>c. dict_get c ''id'' []) (tag_all comments ids) = ids
         \<and> total_received s1 = total_received s + int (length comments)"
proof -
  let ?ids = "drawn_ids e (uuid_draws s) (length comments)"
  let ?s1 = "the (ensure_worker (accept_state e d comments cookies tk s))"
  have r: "receive_comments e d s =
      (Inr \<lparr>enqueued_ids = ?ids, queue_size = length (comment_queue s) + length comments\<rparr>, ?s1)"
    using assms by (rule receive_comments_accepts)
  have l: "length ?ids = length comments" by simp
  have t: "map (\<lambda>c. dict_get c ''id'' []) (tag_all comments ?ids) = ?ids"
    using l by (rule ids_of_tag_all)
  show ?thesis
    using r l t queue_accept_state [of e d comments cookies tk s]
      received_accept_state [of e d comments cookies tk s]
    by blast
qed

theorem enqueue_contract_witness:
  "fst (receive_comments env0 submission0 initial_state) =
     Inr \<lparr>enqueued_ids = [''0b5e6f3a'', ''7c9e6679''], queue_size = 2\<rparr>
   \<and> comment_queue (snd (receive_comments env0 submission0 initial_state)) =
       [dict_set comment0 ''id'' ''0b5e6f3a'', dict_set comment1 ''id'' ''7c9e6679'']
   \<and> total_received (snd (receive_comments env0 submission0 initial_state)) = 2"
proof -
  have a: "body_comments submission0 = Some [comment0, comment1]"
    and b: "body_cookies submission0 = Some [(''reddit_session'', ''abc'')]"
    and c: "body_csrf_token submission0 = Some ''tok''"
    by (simp_all add: submission0_def)
  obtain ids s1 where r: "receive_comments env0 submission0 initial_state =
            (Inr \<lparr>enqueued_ids = ids,
                  queue_size = length (comment_queue initial_state) + length [comment0, comment1]\<rparr>, s1)"
    and q: "comment_queue s1 = comment_queue initial_state @ tag_all [comment0, comment1] ids"
    and n: "total_received s1 = total_received initial_state + int (length [comment0, comment1])"
    using enqueue_contract [OF a _ b _ c, of env0 initial_state] by auto
  have i: "enqueued_ids (projr (fst (receive_comments env0 submission0 initial_state))) =
       [''0b5e6f3a'', ''7c9e6679'']"
    by (simp add: receive_comments_def submission0_def body_is_empty_def Let_def env0_def
        initial_state_def ensure_worker_eq)
  with r have ids: "ids = [''0b5e6f3a'', ''7c9e6679'']" by simp
  show ?thesis
    using r q n by (simp add: ids tag_all_def initial_state_def)
qed

text \<open>
  Claim C6. \<open>receive_comments\<close> answers 400 exactly when the batch is missing or empty,
  or the cookies are missing or empty, or the token is missing or empty; and a 400
  leaves the whole state, the queue included, as it was.
\<close>

theorem submission_validation:
  "((\<exists>msg. fst (receive_comments e d s) = Inl (400, msg)) \<longleftrightarrow>
      (body_comments d = None \<or> body_comments d = Some []
       \<or> body_cookies d = None \<or> body_cookies d = Some []
       \<or> body_csrf_token d = None \<or> body_csrf_token d = Some []))
   \<and> ((\<exists>msg. fst (receive_comments e d s) = Inl (400, msg)) \<longrightarrow>
         snd (receive_comments e d s) = s)"
proof (cases "body_comments d = None \<or> body_comments d = Some []
         \<or> body_cookies d = None \<or> body_cookies d = Some []
         \<or> body_csrf_token d = None \<or> body_csrf_token d = Some []")
  case True
  then have "\<exists>msg. receive_comments e d s = (Inl (400, msg), s)"
    by (rule receive_comments_rejects)
  then obtain msg where r: "receive_comments e d s = (Inl (400, msg), s)" ..
  have 1: "\<exists>msg. fst (receive_comments e d s) = Inl (400, msg)" by (simp add: r)
  have 2: "snd (receive_comments e d s) = s" by (simp add: r)
  from True 1 2 show ?thesis by (simp only: simp_thms)
next
  case False
  then obtain comments cookies tk where h: "body_comments d = Some comments" "comments \<noteq> []"
     "body_cookies d = Some cookies" "cookies \<noteq> []"
     "body_csrf_token d = Some tk" "tk \<noteq> []"
    by (rule complete_submission)
  have "\<not> (\<exists>msg. fst (receive_comments e d s) = Inl (400, msg))"
    by (simp add: receive_comments_accepts [OF h])
  with False show ?thesis by (simp only: simp_thms)
qed

theorem submission_validation_witness:
  "fst (receive_comments env0 empty_batch initial_state) = Inl (400, ''No comments provided'')
   \<and> snd (receive_comments env0 empty_batch initial_state) = initial_state
   \<and> comment_queue (snd (receive_comments env0 empty_batch initial_state)) = []"
proof -
  have f: "fst (receive_comments env0 empty_batch initial_state) = Inl (400, ''No comments provided'')"
    by (simp add: receive_comments_def empty_batch_def body_is_empty_def)
  then have "\<exists>msg. fst (receive_comments env0 empty_batch initial_state) = Inl (400, msg)"
    by (rule exI)
  with submission_validation [of env0 empty_batch initial_state]
  have g: "snd (receive_comments env0 empty_batch initial_state) = initial_state"
    by (simp only: simp_thms)
  have "comment_queue initial_state = []" by (simp add: initial_state_def)
  with f g show ?thesis by (simp only: simp_thms)
qed

text \<open>
  Claim C4, corrected. The identifiers assigned over any run of submissions are, in
  order, the first eight characters of the successive \<open>uuid4\<close> draws; nothing compares
  them with earlier ones, so they are distinct exactly when those prefixes are.
\<close>

theorem ids_are_uuid_prefixes:
  "lifetime_ids e ds s =
     map (\<lambda>i. take 8 (uuid4_str e i))
       [uuid_draws s ..< uuid_draws s + length (lifetime_ids e ds s)]"
  using lifetime_ids_drawn [of e ds s] by (simp only: drawn_ids_def)

text \<open>
  Claim C4, as stated, fails: two draws of \<open>uuid4\<close> that agree on their first eight
  characters give two comments of one batch the same identifier.
\<close>

theorem id_collision:
  "fst (receive_comments collide_env submission0 initial_state) =
     Inr \<lparr>enqueued_ids = [''deadbeef'', ''deadbeef''], queue_size = 2\<rparr>
   \<and> \<not> distinct (lifetime_ids collide_env [submission0] initial_state)"
proof -
  have r: "fst (receive_comments collide_env submission0 initial_state) =
     Inr \<lparr>enqueued_ids = [''deadbeef'', ''deadbeef''], queue_size = 2\<rparr>"
    by (simp add: receive_comments_def submission0_def body_is_empty_def Let_def collide_env_def
        initial_state_def ensure_worker_eq)
  obtain a s1 where p: "receive_comments collide_env submission0 initial_state = (a, s1)"
    by (cases "receive_comments collide_env submission0 initial_state")
  with r have a: "a = Inr \<lparr>enqueued_ids = [''deadbeef'', ''deadbeef''], queue_size = 2\<rparr>"
    by simp
  have "lifetime_ids collide_env [submission0] initial_state = [''deadbeef'', ''deadbeef'']"
    by (simp add: p a)
  with r show ?thesis by simp
qed

section \<open>The executor and the retries of the keepalive route\<close>

lemma executor_calls_of_append [simp]:
  "executor_calls_of (xs @ ys) = executor_calls_of xs @ executor_calls_of ys"
  by (induction xs rule: executor_calls_of.induct) simp_all

lemma sleeps_of_append [simp]: "sleeps_of (xs @ ys) = sleeps_of xs @ sleeps_of ys"
  by (induction xs rule: sleeps_of.induct) simp_all

lemma http_requests_of_append [simp]:
  "http_requests_of (xs @ ys) = http_requests_of xs @ http_requests_of ys"
  by (induction xs rule: http_requests_of.induct) simp_all

lemma range_1_4: "[1 ..< 4] = [1, 2, 3 :: nat]"
  by (simp add: upt_rec)

lemma post_malformed:
  assumes "dict_get c ''url'' [] = [] \<or> dict_get c ''ai_comment'' [] = []"
  shows "post_comment_to_reddit e c ck tk s = (False, s\<lparr>trace := trace s @ [ExecutorCalled c]\<rparr>)"
  using assms by (auto simp: post_comment_to_reddit_def Let_def)

lemma post_frame:
  "\<exists>evs. snd (post_comment_to_reddit e c ck tk s) = s\<lparr>trace := trace s @ ExecutorCalled c # evs\<rparr>
      \<and> executor_calls_of evs = [] \<and> sleeps_of evs = []"
proof (cases "dict_get c ''url'' [] = [] \<or> dict_get c ''ai_comment'' [] = []")
  case True
  show ?thesis
    by (rule exI [of _ "[]"]) (simp add: post_malformed [OF True])
next
  case False
  show ?thesis
  proof (cases "extract_post_id (dict_get c ''url'' [])")
    case None
    show ?thesis
      by (rule exI [of _ "[]"]) (use False None in \<open>simp add: post_comment_to_reddit_def Let_def\<close>)
  next
    case (Some pid)
    show ?thesis
      by (rule exI [of _ "[HttpPosted (build_request pid (dict_get c ''url'' [])
             (dict_get c ''ai_comment'' []) ck tk)]"])
         (use False Some in \<open>simp add: post_comment_to_reddit_def Let_def split: http_outcome.splits\<close>)
  qed
qed



lemma post_frame_eq:
  assumes "post_comment_to_reddit e c ck tk s = (ok, s1)"
  obtains evs where "s1 = s\<lparr>trace := trace s @ ExecutorCalled c # evs\<rparr>"
    and "executor_calls_of evs = []" and "sleeps_of evs = []"
proof -
  from post_frame [of e c ck tk s] assms
  have "\<exists>evs. s1 = s\<lparr>trace := trace s @ ExecutorCalled c # evs\<rparr>
      \<and> executor_calls_of evs = [] \<and> sleeps_of evs = []" by simp
  then show thesis using that by (elim exE conjE)
qed

lemma retry_unfold:
  assumes "post_comment_to_reddit e c ck tk s0 = (ok1, s1)"
      and "post_comment_to_reddit e c ck tk (slept 2 s1) = (ok2, s2)"
      and "post_comment_to_reddit e c ck tk (slept 2 s2) = (ok3, s3)"
  shows "retry_post e [1 ..< 4] c ck tk s0 =
     (if ok1 then (True, s1) else if ok2 then (True, s2)
      else if ok3 then (True, s3) else (False, slept 2 s3))"
  by (simp only: range_1_4) (simp add: assms)

lemma post_id_comment0: "extract_post_id (dict_get comment0 ''url'' []) = Some ''abc123''"
  by (simp add: comment0_def dict_get_def extract_post_id_def rstrip_slash_def Let_def)

lemma post_wellformed:
  assumes "dict_get c ''url'' [] \<noteq> []" and "dict_get c ''ai_comment'' [] \<noteq> []"
    and "extract_post_id (dict_get c ''url'' []) = Some pid"
  shows "post_comment_to_reddit e c ck tk s =
     (http_post e (length (http_requests_of (trace s)))
        (build_request pid (dict_get c ''url'' []) (dict_get c ''ai_comment'' []) ck tk)
        = Status 200,
      s\<lparr>trace := trace s @ [ExecutorCalled c,
         HttpPosted (build_request pid (dict_get c ''url'' []) (dict_get c ''ai_comment'' []) ck tk)]\<rparr>)"
  using assms
  by (simp add: post_comment_to_reddit_def Let_def split: http_outcome.splits)

lemma post_comment0:
  "post_comment_to_reddit e comment0 ck tk s =
     (http_post e (length (http_requests_of (trace s)))
        (build_request ''abc123'' (dict_get comment0 ''url'' []) ''Nice.'' ck tk)
        = Status 200,
      s\<lparr>trace := trace s @ [ExecutorCalled comment0,
         HttpPosted (build_request ''abc123'' (dict_get comment0 ''url'' []) ''Nice.'' ck tk)]\<rparr>)"
proof -
  have a: "dict_get comment0 ''ai_comment'' [] = ''Nice.''"
    by (simp add: comment0_def dict_get_def)
  have u: "dict_get comment0 ''url'' [] \<noteq> []"
    by (simp add: comment0_def dict_get_def)
  have "dict_get comment0 ''ai_comment'' [] \<noteq> []" by (simp add: a)
  from post_wellformed [OF u this post_id_comment0, of e ck tk s] show ?thesis
    by (simp only: a)
qed



lemma keepalive_task_effect:
  assumes r1: "post_comment_to_reddit e c ck tk (s\<lparr>currently_posting := Some c\<rparr>) = (ok1, s1)"
      and r2: "post_comment_to_reddit e c ck tk (slept 2 s1) = (ok2, s2)"
      and r3: "post_comment_to_reddit e c ck tk (slept 2 s2) = (ok3, s3)"
  shows "executor_calls_of (trace (snd (keepalive_task e ck tk c ((posted, failed), s)))) =
           executor_calls_of (trace s) @ replicate (if ok1 then 1 else if ok2 then 2 else 3) c
       \<and> posting_history (snd (keepalive_task e ck tk c ((posted, failed), s))) =
           history_append (make_result c (ok1 \<or> ok2 \<or> ok3) (utc_now_iso e (clock_reads s)))
             (posting_history s)
       \<and> fst (keepalive_task e ck tk c ((posted, failed), s)) =
           (if ok1 \<or> ok2 \<or> ok3 then (posted + 1, failed) else (posted, failed + 1))
       \<and> total_success (snd (keepalive_task e ck tk c ((posted, failed), s))) =
           total_success s + (if ok1 \<or> ok2 \<or> ok3 then 1 else 0)
       \<and> total_fail (snd (keepalive_task e ck tk c ((posted, failed), s))) =
           total_fail s + (if ok1 \<or> ok2 \<or> ok3 then 0 else 1)"
proof -
  obtain evs1 where s1: "s1 = s\<lparr>currently_posting := Some c\<rparr>\<lparr>trace :=
        trace (s\<lparr>currently_posting := Some c\<rparr>) @ ExecutorCalled c # evs1\<rparr>"
    and e1: "executor_calls_of evs1 = []"
    using r1 by (rule post_frame_eq)
  obtain evs2 where s2: "s2 = (slept 2 s1)\<lparr>trace := trace (slept 2 s1) @ ExecutorCalled c # evs2\<rparr>"
    and e2: "executor_calls_of evs2 = []"
    using r2 by (rule post_frame_eq)
  obtain evs3 where s3: "s3 = (slept 2 s2)\<lparr>trace := trace (slept 2 s2) @ ExecutorCalled c # evs3\<rparr>"
    and e3: "executor_calls_of evs3 = []"
    using r3 by (rule post_frame_eq)
  note u = retry_unfold [OF r1 r2 r3]
  show ?thesis
  proof (cases ok1)
    case True
    have "retry_post e [1 ..< 4] c ck tk (s\<lparr>currently_posting := Some c\<rparr>) = (True, s1)"
      using u True by simp
    note k = keepalive_task_unfold [where posted = posted and failed = failed, OF this]
    show ?thesis
      unfolding k using True
      by (simp add: Let_def s1 e1 record_result_def count_outcome_def random_uniform_def slept_def)
  next
    case f1: False
    show ?thesis
    proof (cases ok2)
      case True
      have "retry_post e [1 ..< 4] c ck tk (s\<lparr>currently_posting := Some c\<rparr>) = (True, s2)"
        using u f1 True by simp
      note k = keepalive_task_unfold [where posted = posted and failed = failed, OF this]
      show ?thesis
        unfolding k using True f1
        by (simp add: numeral_2_eq_2 Let_def s2 s1 e1 e2 record_result_def count_outcome_def
            random_uniform_def slept_def)
    next
      case f2: False
      show ?thesis
      proof (cases ok3)
        case True
        have "retry_post e [1 ..< 4] c ck tk (s\<lparr>currently_posting := Some c\<rparr>) = (True, s3)"
          using u f1 f2 True by simp
        note k = keepalive_task_unfold [where posted = posted and failed = failed, OF this]
        show ?thesis
          unfolding k using True f1 f2
          by (simp add: numeral_3_eq_3 Let_def s3 s2 s1 e1 e2 e3 record_result_def count_outcome_def
              random_uniform_def slept_def)
      next
        case f3: False
        have "retry_post e [1 ..< 4] c ck tk (s\<lparr>currently_posting := Some c\<rparr>)
            = (False, slept 2 s3)"
          using u f1 f2 f3 by simp
        note k = keepalive_task_unfold [where posted = posted and failed = failed, OF this]
        show ?thesis
          unfolding k using f1 f2 f3
          by (simp add: numeral_3_eq_3 Let_def s3 s2 s1 e1 e2 e3 record_result_def count_outcome_def
              random_uniform_def slept_def)
      qed
    qed
  qed
qed

text \<open>
  Claim C3. For a task the keepalive route dequeues, the executor is called once if the
  first call succeeds, twice if the first fails and the second succeeds, and three times
  otherwise, never more; the result recorded is a success exactly when one of the calls
  made succeeded. So two failures followed by a success give a recorded success after
  exactly three calls, and three failures a recorded failure after exactly three calls.
\<close>

theorem drain_now_retry_policy:
  assumes r1: "post_comment_to_reddit e c ck tk (s\<lparr>currently_posting := Some c\<rparr>) = (ok1, s1)"
      and r2: "post_comment_to_reddit e c ck tk (slept 2 s1) = (ok2, s2)"
      and r3: "post_comment_to_reddit e c ck tk (slept 2 s2) = (ok3, s3)"
  shows "executor_calls_of (trace (snd (keepalive_task e ck tk c ((posted, failed), s)))) =
           executor_calls_of (trace s) @ replicate (if ok1 then 1 else if ok2 then 2 else 3) c
       \<and> posting_history (snd (keepalive_task e ck tk c ((posted, failed), s))) =
           history_append (make_result c (ok1 \<or> ok2 \<or> ok3) (utc_now_iso e (clock_reads s)))
             (posting_history s)
       \<and> fst (keepalive_task e ck tk c ((posted, failed), s)) =
           (if ok1 \<or> ok2 \<or> ok3 then (posted + 1, failed) else (posted, failed + 1))
       \<and> total_success (snd (keepalive_task e ck tk c ((posted, failed), s))) =
           total_success s + (if ok1 \<or> ok2 \<or> ok3 then 1 else 0)
       \<and> total_fail (snd (keepalive_task e ck tk c ((posted, failed), s))) =
           total_fail s + (if ok1 \<or> ok2 \<or> ok3 then 0 else 1)"
  using r1 r2 r3 by (rule keepalive_task_effect)

theorem drain_now_retry_policy_witness:
  "executor_calls_of (trace (snd (keepalive_task flaky_env cookies0 ''tok'' comment0
      ((0, 0), initial_state)))) = [comment0, comment0, comment0]
   \<and> fst (keepalive_task flaky_env cookies0 ''tok'' comment0 ((0, 0), initial_state)) = (1, 0)
   \<and> map res_success (posting_history (snd (keepalive_task flaky_env cookies0 ''tok'' comment0
      ((0, 0), initial_state)))) = [True]
   \<and> executor_calls_of (trace (snd (keepalive_task failing_env cookies0 ''tok'' comment0
      ((0, 0), initial_state)))) = [comment0, comment0, comment0]
   \<and> fst (keepalive_task failing_env cookies0 ''tok'' comment0 ((0, 0), initial_state)) = (0, 1)
   \<and> map res_success (posting_history (snd (keepalive_task failing_env cookies0 ''tok'' comment0
      ((0, 0), initial_state)))) = [False]"
proof -
  let ?rq = "build_request ''abc123'' (dict_get comment0 ''url'' []) ''Nice.'' cookies0 ''tok''"
  let ?s0 = "initial_state\<lparr>currently_posting := Some comment0\<rparr>"
  let ?s1 = "?s0\<lparr>trace := trace ?s0 @ [ExecutorCalled comment0, HttpPosted ?rq]\<rparr>"
  let ?s2 = "(slept 2 ?s1)\<lparr>trace := trace (slept 2 ?s1) @ [ExecutorCalled comment0, HttpPosted ?rq]\<rparr>"
  let ?s3 = "(slept 2 ?s2)\<lparr>trace := trace (slept 2 ?s2) @ [ExecutorCalled comment0, HttpPosted ?rq]\<rparr>"
  have a1: "post_comment_to_reddit flaky_env comment0 cookies0 ''tok'' ?s0 = (False, ?s1)"
    by (simp add: post_comment0 flaky_env_def initial_state_def)
  have a2: "post_comment_to_reddit flaky_env comment0 cookies0 ''tok'' (slept 2 ?s1) = (False, ?s2)"
    by (simp add: post_comment0 flaky_env_def initial_state_def slept_def)
  have a3: "post_comment_to_reddit flaky_env comment0 cookies0 ''tok'' (slept 2 ?s2) = (True, ?s3)"
    by (simp add: post_comment0 flaky_env_def initial_state_def slept_def)
  have b1: "post_comment_to_reddit failing_env comment0 cookies0 ''tok'' ?s0 = (False, ?s1)"
    by (simp add: post_comment0 failing_env_def initial_state_def)
  have b2: "post_comment_to_reddit failing_env comment0 cookies0 ''tok'' (slept 2 ?s1) = (False, ?s2)"
    by (simp add: post_comment0 failing_env_def initial_state_def slept_def)
  have b3: "post_comment_to_reddit failing_env comment0 cookies0 ''tok'' (slept 2 ?s2) = (False, ?s3)"
    by (simp add: post_comment0 failing_env_def initial_state_def slept_def)
  have h: "posting_history initial_state = []" "trace initial_state = []"
    by (simp_all add: initial_state_def)
  show ?thesis
    using drain_now_retry_policy [OF a1 a2 a3, of 0 0] drain_now_retry_policy [OF b1 b2 b3, of 0 0]
    by (simp add: h history_append_def MAX_HISTORY_def make_result_def numeral_3_eq_3)
qed

section \<open>The worker loop\<close>

lemma sleep_nonneg: "0 \<le> d \<Longrightarrow> sleep d s = Inr (slept d s)"
  by (simp add: sleep_def)

lemma sleep_negative: "d < 0 \<Longrightarrow> sleep d s = Inl ValueError"
  by (simp add: sleep_def)

lemma draw_bounds: "0 \<le> Rep_unit_draw r \<and> Rep_unit_draw r < 1"
  using Rep_unit_draw [of r] by simp

lemma uniform_bounds:
  assumes "a \<le> b" and "0 \<le> r" and "r \<le> 1"
  shows "a \<le> uniform a b r \<and> uniform a b r \<le> b"
proof -
  have d: "0 \<le> b - a" using assms(1) by simp
  have "0 \<le> (b - a) * r" using d assms(2) by (rule mult_nonneg_nonneg)
  moreover have "(b - a) * r \<le> (b - a) * 1" using assms(3) d by (rule mult_left_mono)
  ultimately show ?thesis by (simp add: uniform_def)
qed

lemma uniform_draw_bounds:
  "a \<le> b \<Longrightarrow> a \<le> uniform a b (Rep_unit_draw r) \<and> uniform a b (Rep_unit_draw r) \<le> b"
  using draw_bounds [of r] by (intro uniform_bounds) simp_all

lemma sleep_constants: "sleep 1 s = Inr (slept 1 s) \<and> sleep 2 s = Inr (slept 2 s)"
  by (simp add: sleep_def)

lemma sleep_gap:
  "sleep (fst (random_uniform e 2 4 s)) s1 = Inr (slept (fst (random_uniform e 2 4 s)) s1)"
proof -
  have "(2::real) \<le> uniform 2 4 (Rep_unit_draw (random_random e (random_draws s)))"
    using uniform_draw_bounds [of 2 4] by simp
  then show ?thesis by (simp add: random_uniform_def sleep_def)
qed

lemma pace_first: "pace e True s = Inr s"
  by (simp add: pace_def)

lemma pace_returns:
  assumes "0 \<le> uniform (min_wait s) (max_wait s) (Rep_unit_draw (random_random e (random_draws s)))"
  shows "pace e False s =
     Inr (slept (uniform (min_wait s) (max_wait s) (Rep_unit_draw (random_random e (random_draws s))))
            (s\<lparr>random_draws := random_draws s + 1\<rparr>))"
  using assms by (simp add: pace_def random_uniform_def sleep_def Let_def)

lemma pace_raises:
  assumes "uniform (min_wait s) (max_wait s) (Rep_unit_draw (random_random e (random_draws s))) < 0"
  shows "pace e False s = Inl (ValueError, s\<lparr>random_draws := random_draws s + 1\<rparr>)"
  using assms by (simp add: pace_def random_uniform_def sleep_def Let_def)

lemma worker_execute_form:
  "\<exists>ok evs. worker_execute e c ck tk s =
      record_result e c ok (count_outcome ok
        (s\<lparr>trace := trace s @ ExecutorCalled c # evs, currently_posting := None\<rparr>))
     \<and> sleeps_of evs = [] \<and> executor_calls_of evs = []"
proof -
  define s2 where "s2 = s\<lparr>currently_posting := Some c\<rparr>"
  obtain ok s3 where p: "post_comment_to_reddit e c ck tk s2 = (ok, s3)"
    by (cases "post_comment_to_reddit e c ck tk s2")
  from p obtain evs where s3: "s3 = s2\<lparr>trace := trace s2 @ ExecutorCalled c # evs\<rparr>"
    and ev: "executor_calls_of evs = []" "sleeps_of evs = []"
    by (rule post_frame_eq)
  have "worker_execute e c ck tk s =
        record_result e c ok (count_outcome ok (s3\<lparr>currently_posting := None\<rparr>))"
    using p by (simp add: worker_execute_def s2_def)
  then have "worker_execute e c ck tk s =
      record_result e c ok (count_outcome ok
        (s\<lparr>trace := trace s @ ExecutorCalled c # evs, currently_posting := None\<rparr>))"
    by (simp add: s3 s2_def)
  with ev show ?thesis by blast
qed

lemma worker_execute_trace:
  "\<exists>evs. trace (worker_execute e c ck tk s) = trace s @ ExecutorCalled c # evs
     \<and> sleeps_of evs = [] \<and> executor_calls_of evs = []"
proof -
  obtain ok evs where w: "worker_execute e c ck tk s =
      record_result e c ok (count_outcome ok
        (s\<lparr>trace := trace s @ ExecutorCalled c # evs, currently_posting := None\<rparr>))"
     and ev: "sleeps_of evs = []" "executor_calls_of evs = []"
    using worker_execute_form by blast
  have "trace (worker_execute e c ck tk s) = trace s @ ExecutorCalled c # evs"
    by (simp add: w record_result_def count_outcome_def)
  with ev show ?thesis by blast
qed

lemma worker_execute_rest:
  "comment_queue (worker_execute e c ck tk s) = comment_queue s
   \<and> worker_running (worker_execute e c ck tk s) = worker_running s
   \<and> min_wait (worker_execute e c ck tk s) = min_wait s
   \<and> max_wait (worker_execute e c ck tk s) = max_wait s
   \<and> random_draws (worker_execute e c ck tk s) = random_draws s"
proof -
  obtain ok evs where w: "worker_execute e c ck tk s =
      record_result e c ok (count_outcome ok
        (s\<lparr>trace := trace s @ ExecutorCalled c # evs, currently_posting := None\<rparr>))"
    using worker_execute_form by blast
  show ?thesis
    by (simp add: w record_result_def count_outcome_def)
qed


lemma paced_rest:
  "comment_queue (paced e f s) = comment_queue s \<and> worker_running (paced e f s) = worker_running s
   \<and> min_wait (paced e f s) = min_wait s \<and> max_wait (paced e f s) = max_wait s
   \<and> random_draws (paced e f s) = random_draws s + (if f then 0 else 1)
   \<and> executor_calls_of (trace (paced e f s)) = executor_calls_of (trace s)
   \<and> http_requests_of (trace (paced e f s)) = http_requests_of (trace s)
   \<and> posting_history (paced e f s) = posting_history s
   \<and> total_fail (paced e f s) = total_fail s \<and> total_success (paced e f s) = total_success s
   \<and> clock_reads (paced e f s) = clock_reads s"
  by (simp add: paced_def slept_def)

lemma worker_post_returns:
  assumes "is_first \<or> 0 \<le> min_wait s + (max_wait s - min_wait s)
                    * Rep_unit_draw (random_random e (random_draws s))"
  shows "worker_post e is_first c s =
     Inr (worker_execute e c (case session_cookies s of None \<Rightarrow> [] | Some ck \<Rightarrow> ck)
            (case session_csrf_token s of None \<Rightarrow> [] | Some tk \<Rightarrow> tk) (paced e is_first s))"
proof (cases is_first)
  case True
  then show ?thesis by (simp add: worker_post_def pace_first paced_def)
next
  case False
  with assms have "0 \<le> uniform (min_wait s) (max_wait s)
      (Rep_unit_draw (random_random e (random_draws s)))"
    by (simp add: uniform_def)
  from pace_returns [OF this] False show ?thesis
    by (simp add: worker_post_def paced_def uniform_def)
qed

lemma worker_post_raises:
  assumes "\<not> is_first" and "min_wait s + (max_wait s - min_wait s)
                    * Rep_unit_draw (random_random e (random_draws s)) < 0"
  shows "worker_post e is_first c s = Inl (ValueError, s\<lparr>random_draws := random_draws s + 1\<rparr>)"
proof -
  from assms(2) have "uniform (min_wait s) (max_wait s)
      (Rep_unit_draw (random_random e (random_draws s))) < 0"
    by (simp add: uniform_def)
  from pace_raises [OF this] assms(1) show ?thesis
    by (simp add: worker_post_def)
qed

lemma worker_post_cases:
  "(\<exists>s1. worker_post e f c s = Inr s1 \<and> comment_queue s1 = comment_queue s
       \<and> worker_running s1 = worker_running s
       \<and> min_wait s1 = min_wait s \<and> max_wait s1 = max_wait s
       \<and> executor_calls_of (trace s1) = executor_calls_of (trace s) @ [c])
   \<or> (\<exists>s1. worker_post e f c s = Inl (ValueError, s1) \<and> comment_queue s1 = comment_queue s
       \<and> worker_running s1 = worker_running s
       \<and> executor_calls_of (trace s1) = executor_calls_of (trace s))"
proof (cases "f \<or> 0 \<le> min_wait s + (max_wait s - min_wait s)
                    * Rep_unit_draw (random_random e (random_draws s))")
  case True
  let ?ck = "case session_cookies s of None \<Rightarrow> [] | Some ck \<Rightarrow> ck"
  let ?tk = "case session_csrf_token s of None \<Rightarrow> [] | Some tk \<Rightarrow> tk"
  let ?s1 = "worker_execute e c ?ck ?tk (paced e f s)"
  have r: "worker_post e f c s = Inr ?s1" using True by (rule worker_post_returns)
  obtain evs where t: "trace ?s1 = trace (paced e f s) @ ExecutorCalled c # evs"
    and ev: "executor_calls_of evs = []"
    using worker_execute_trace [of e c ?ck ?tk "paced e f s"] by blast
  have "executor_calls_of (trace ?s1) = executor_calls_of (trace s) @ [c]"
    by (simp add: t ev paced_rest)
  moreover have "comment_queue ?s1 = comment_queue s \<and> worker_running ?s1 = worker_running s
       \<and> min_wait ?s1 = min_wait s \<and> max_wait ?s1 = max_wait s"
    by (simp add: worker_execute_rest paced_rest)
  ultimately show ?thesis using r by blast
next
  case False
  then have "worker_post e f c s = Inl (ValueError, s\<lparr>random_draws := random_draws s + 1\<rparr>)"
    by (intro worker_post_raises) simp_all
  then show ?thesis by simp
qed

lemma worker_iteration_idle:
  "comment_queue s = [] \<Longrightarrow>
   worker_iteration e (f, s) =
     (if \<not> worker_running s then Break (f, slept 1 s) else Continue (f, slept 1 s))"
  by (simp add: worker_iteration_def popleft_def Let_def slept_def)

lemma worker_iteration_task:
  "comment_queue s = c # rest \<Longrightarrow>
   worker_iteration e (f, s) =
     (case worker_post e f c (s\<lparr>comment_queue := rest\<rparr>) of
        Inl (err, s2) \<Rightarrow> Raise err (f, s2)
      | Inr s2 \<Rightarrow> Continue (False, s2))"
  by (simp add: worker_iteration_def popleft_def)

lemma worker_iteration_no_break:
  assumes "worker_running s"
  shows "(\<exists>f1 s1. worker_iteration e (f, s) = Continue (f1, s1) \<and> worker_running s1)
       \<or> (\<exists>err f1 s1. worker_iteration e (f, s) = Raise err (f1, s1))"
proof (cases "comment_queue s")
  case Nil
  have "worker_iteration e (f, s) = Continue (f, slept 1 s)"
    using assms by (simp add: worker_iteration_idle [OF Nil])
  moreover have "worker_running (slept 1 s)" using assms by (simp add: slept_def)
  ultimately show ?thesis by blast
next
  case (Cons c rest)
  note i = worker_iteration_task [OF Cons, of e f]
  from worker_post_cases [of e f c "s\<lparr>comment_queue := rest\<rparr>"] show ?thesis
  proof
    assume "\<exists>s1. worker_post e f c (s\<lparr>comment_queue := rest\<rparr>) = Inr s1
       \<and> comment_queue s1 = comment_queue (s\<lparr>comment_queue := rest\<rparr>)
       \<and> worker_running s1 = worker_running (s\<lparr>comment_queue := rest\<rparr>)
       \<and> min_wait s1 = min_wait (s\<lparr>comment_queue := rest\<rparr>)
       \<and> max_wait s1 = max_wait (s\<lparr>comment_queue := rest\<rparr>)
       \<and> executor_calls_of (trace s1) = executor_calls_of (trace (s\<lparr>comment_queue := rest\<rparr>)) @ [c]"
    then obtain s1 where p: "worker_post e f c (s\<lparr>comment_queue := rest\<rparr>) = Inr s1"
      and r: "worker_running s1 = worker_running (s\<lparr>comment_queue := rest\<rparr>)"
      by blast
    have "worker_iteration e (f, s) = Continue (False, s1)" by (simp add: i p)
    moreover have "worker_running s1" using r assms by simp
    ultimately show ?thesis by blast
  next
    assume "\<exists>s1. worker_post e f c (s\<lparr>comment_queue := rest\<rparr>) = Inl (ValueError, s1)
       \<and> comment_queue s1 = comment_queue (s\<lparr>comment_queue := rest\<rparr>)
       \<and> worker_running s1 = worker_running (s\<lparr>comment_queue := rest\<rparr>)
       \<and> executor_calls_of (trace s1) = executor_calls_of (trace (s\<lparr>comment_queue := rest\<rparr>))"
    then obtain s1 where p: "worker_post e f c (s\<lparr>comment_queue := rest\<rparr>) = Inl (ValueError, s1)"
      by blast
    have "worker_iteration e (f, s) = Raise ValueError (f, s1)" by (simp add: i p)
    then show ?thesis by blast
  qed
qed

lemma worker_passes_no_break:
  "worker_running s \<Longrightarrow> worker_passes e n (f, s) \<noteq> Break x"
proof (induction n arbitrary: f s)
  case 0
  show ?case by simp
next
  case (Suc n)
  from worker_iteration_no_break [OF Suc.prems, of e f] show ?case
  proof
    assume "\<exists>f1 s1. worker_iteration e (f, s) = Continue (f1, s1) \<and> worker_running s1"
    then obtain f1 s1 where i: "worker_iteration e (f, s) = Continue (f1, s1)"
      and r: "worker_running s1" by blast
    from Suc.IH [OF r, of f1] show ?thesis by (simp add: i)
  next
    assume "\<exists>err f1 s1. worker_iteration e (f, s) = Raise err (f1, s1)"
    then obtain err f1 s1 where "worker_iteration e (f, s) = Raise err (f1, s1)" by blast
    then show ?thesis by simp
  qed
qed

lemma delay_nonneg:
  "wait_range_ok s \<Longrightarrow>
   0 \<le> min_wait s + (max_wait s - min_wait s) * Rep_unit_draw (random_random e (random_draws s))"
  using uniform_draw_bounds [of "min_wait s" "max_wait s" "random_random e (random_draws s)"]
  by (simp add: wait_range_ok_def uniform_def)

lemma worker_iteration_served:
  assumes "comment_queue s = c # rest"
    and "f \<or> 0 \<le> min_wait s + (max_wait s - min_wait s)
                    * Rep_unit_draw (random_random e (random_draws s))"
  shows "worker_iteration e (f, s) =
     Continue (False, worker_execute e c
        (case session_cookies s of None \<Rightarrow> [] | Some ck \<Rightarrow> ck)
        (case session_csrf_token s of None \<Rightarrow> [] | Some tk \<Rightarrow> tk)
        (paced e f (s\<lparr>comment_queue := rest\<rparr>)))"
proof -
  have "f \<or> 0 \<le> min_wait (s\<lparr>comment_queue := rest\<rparr>)
        + (max_wait (s\<lparr>comment_queue := rest\<rparr>) - min_wait (s\<lparr>comment_queue := rest\<rparr>))
          * Rep_unit_draw (random_random e (random_draws (s\<lparr>comment_queue := rest\<rparr>)))"
    using assms(2) by simp
  from worker_post_returns [OF this, of c] show ?thesis
    by (simp add: worker_iteration_task [OF assms(1)])
qed







lemma worker_iteration_running:
  assumes "worker_running s" and "comment_queue s = [] \<or> wait_range_ok s"
  shows "\<exists>f1 s1. worker_iteration e (f, s) = Continue (f1, s1) \<and> worker_running s1
      \<and> (comment_queue s1 = [] \<or> wait_range_ok s1)
      \<and> length (comment_queue s1) = length (comment_queue s) - 1"
proof (cases "comment_queue s")
  case Nil
  have i: "worker_iteration e (f, s) = Continue (f, slept 1 s)"
    using assms(1) by (simp add: worker_iteration_idle [OF Nil])
  have r: "worker_running (slept 1 s)" using assms(1) by (simp add: slept_def)
  have l: "comment_queue (slept 1 s) = []" by (simp add: Nil)
  from i r l show ?thesis by (simp add: Nil)
next
  case (Cons c rest)
  with assms(2) have ok: "wait_range_ok s" by simp
  let ?ck = "case session_cookies s of None \<Rightarrow> [] | Some ck \<Rightarrow> ck"
  let ?tk = "case session_csrf_token s of None \<Rightarrow> [] | Some tk \<Rightarrow> tk"
  let ?s1 = "worker_execute e c ?ck ?tk (paced e f (s\<lparr>comment_queue := rest\<rparr>))"
  have d: "f \<or> 0 \<le> min_wait s + (max_wait s - min_wait s)
                    * Rep_unit_draw (random_random e (random_draws s))"
    using delay_nonneg [OF ok, of e] by simp
  have i: "worker_iteration e (f, s) = Continue (False, ?s1)"
    using Cons d by (rule worker_iteration_served)
  have r: "worker_running ?s1" using assms(1) by (simp add: worker_execute_rest paced_rest)
  have w: "wait_range_ok ?s1"
    using ok by (simp add: wait_range_ok_def worker_execute_rest paced_rest)
  have l: "length (comment_queue ?s1) = length (comment_queue s) - 1"
    by (simp add: worker_execute_rest paced_rest Cons)
  from i r w l show ?thesis by blast
qed

lemma worker_passes_running:
  "worker_running s \<Longrightarrow> comment_queue s = [] \<or> wait_range_ok s \<Longrightarrow>
   \<exists>f1 s1. worker_passes e n (f, s) = Continue (f1, s1) \<and> worker_running s1
      \<and> length (comment_queue s1) = length (comment_queue s) - n"
proof (induction n arbitrary: f s)
  case 0
  then show ?case by simp
next
  case (Suc n)
  from worker_iteration_running [OF Suc.prems, of e f]
  obtain f1 s1 where i: "worker_iteration e (f, s) = Continue (f1, s1)" and r: "worker_running s1"
    and w: "comment_queue s1 = [] \<or> wait_range_ok s1"
    and l: "length (comment_queue s1) = length (comment_queue s) - 1"
    by blast
  from Suc.IH [OF r w, where f = f1]
  obtain f2 s2 where p: "worker_passes e n (f1, s1) = Continue (f2, s2)" and r2: "worker_running s2"
    and l2: "length (comment_queue s2) = length (comment_queue s1) - n"
    by blast
  have "worker_passes e (Suc n) (f, s) = Continue (f2, s2)" by (simp add: i p)
  moreover have "length (comment_queue s2) = length (comment_queue s) - Suc n"
    using l l2 by simp
  ultimately show ?case using r2 by blast
qed








lemma ensure_worker_spawns:
  assumes "\<not> worker_is_alive s"
  shows "ensure_worker s =
     Some (s\<lparr>worker_running := True, threads := threads s @ [Running],
             worker_thread := Some (length (threads s))\<rparr>)"
  using assms by (simp add: ensure_worker_eq)

lemma ensure_worker_idempotent:
  "worker_is_alive s \<Longrightarrow> ensure_worker s = Some s \<and> live_workers (the (ensure_worker s)) = live_workers s"
  by (simp add: ensure_worker_eq)

lemma ensure_worker_sequential:
  "interleave [0, 0, 0, 0] ([AtCheck], s) =
     (case ensure_worker s of None \<Rightarrow> ([Crashed], create_worker_thread (set_worker_running s))
      | Some s1 \<Rightarrow> ([Returned], s1))"
  by (simp add: ensure_worker_def split: option.splits)














text \<open>
  Claim C1, which the code does not meet. \<open>_ensure_worker\<close> sets \<open>worker_running\<close> to
  True before it starts the thread and nothing in the module sets it back to False, so
  the test of line 176 never lets the loop break: whatever the number of passes, the
  worker started by \<open>_ensure_worker\<close> has not left the loop by line 177, and when the
  queue is empty (or the wait range is not negative) it is still in it.
\<close>

theorem worker_never_exits:
  assumes "\<not> worker_is_alive s"
  shows "\<exists>s1. ensure_worker s = Some s1 \<and> worker_running s1
     \<and> (\<forall>x. worker_passes e n (True, s1) \<noteq> Break x)
     \<and> (\<forall>x. worker_loop e n s1 \<noteq> Some (Exited x))
     \<and> (comment_queue s = [] \<or> 0 \<le> min_wait s \<and> min_wait s \<le> max_wait s \<longrightarrow>
          worker_loop e n s1 = None
          \<and> (\<exists>f1 s2. worker_passes e n (True, s1) = Continue (f1, s2) \<and> worker_running s2
               \<and> length (comment_queue s2) = length (comment_queue s) - n))"
proof -
  let ?s1 = "s\<lparr>worker_running := True, threads := threads s @ [Running],
             worker_thread := Some (length (threads s))\<rparr>"
  have a: "ensure_worker s = Some ?s1" using assms by (rule ensure_worker_spawns)
  have r: "worker_running ?s1" by simp
  have nb: "\<forall>x. worker_passes e n (True, ?s1) \<noteq> Break x"
    using worker_passes_no_break [OF r] by blast
  have ne: "\<forall>x. worker_loop e n ?s1 \<noteq> Some (Exited x)"
  proof
    fix x
    show "worker_loop e n ?s1 \<noteq> Some (Exited x)"
    proof (cases "worker_passes e n (True, ?s1)")
      case (Continue y)
      then show ?thesis by (simp add: worker_loop_def)
    next
      case (Break y)
      with nb show ?thesis by blast
    next
      case (Raise err y)
      then show ?thesis by (cases y) (simp add: worker_loop_def)
    qed
  qed
  have c: "comment_queue s = [] \<or> 0 \<le> min_wait s \<and> min_wait s \<le> max_wait s \<longrightarrow>
          worker_loop e n ?s1 = None
          \<and> (\<exists>f1 s2. worker_passes e n (True, ?s1) = Continue (f1, s2) \<and> worker_running s2
               \<and> length (comment_queue s2) = length (comment_queue s) - n)"
  proof
    assume "comment_queue s = [] \<or> 0 \<le> min_wait s \<and> min_wait s \<le> max_wait s"
    then have w: "comment_queue ?s1 = [] \<or> wait_range_ok ?s1"
      by (auto simp: wait_range_ok_def)
    from worker_passes_running [OF r w, of e n True]
    obtain f1 s2 where p: "worker_passes e n (True, ?s1) = Continue (f1, s2)"
      and r2: "worker_running s2"
      and l: "length (comment_queue s2) = length (comment_queue s) - n"
      by auto
    have "worker_loop e n ?s1 = None" by (simp add: worker_loop_def p)
    with p r2 l show "worker_loop e n ?s1 = None
          \<and> (\<exists>f1 s2. worker_passes e n (True, ?s1) = Continue (f1, s2) \<and> worker_running s2
               \<and> length (comment_queue s2) = length (comment_queue s) - n)"
      by blast
  qed
  from a r nb ne c show ?thesis by blast
qed

theorem worker_never_exits_witness:
  "\<not> worker_is_alive initial_state \<and> comment_queue initial_state = []
   \<and> (\<exists>s1. ensure_worker initial_state = Some s1 \<and> worker_loop env0 1000 s1 = None)"
proof -
  have a: "\<not> worker_is_alive initial_state"
    by (simp add: worker_is_alive_def initial_state_def)
  have q: "comment_queue initial_state = []" by (simp add: initial_state_def)
  from worker_never_exits [OF a, of env0 1000] q
  have "\<exists>s1. ensure_worker initial_state = Some s1 \<and> worker_loop env0 1000 s1 = None"
    by blast
  with a q show ?thesis by simp
qed

text \<open>
  Claim C2, which the code does not meet. \<open>_ensure_worker\<close> takes no lock. Two request
  threads that both run the liveness test of line 234 before either has started its
  thread both go on to create and start one: two workers are alive at once.
\<close>

theorem two_workers_race:
  "fst (interleave [0, 1, 0, 0, 0, 1, 1, 1] ([AtCheck, AtCheck], initial_state)) = [Returned, Returned]
   \<and> threads (snd (interleave [0, 1, 0, 0, 0, 1, 1, 1] ([AtCheck, AtCheck], initial_state)))
       = [Running, Running]
   \<and> live_workers (snd (interleave [0, 1, 0, 0, 0, 1, 1, 1] ([AtCheck, AtCheck], initial_state))) = 2"
  by (simp add: initial_state_def worker_is_alive_def set_worker_running_def
      create_worker_thread_def start_worker_thread_def live_workers_def)

end
